theory Spec2Isabelle
  imports Main "HOL-Library.Word"
begin

unbundle bit_operations_syntax

section \<open>Values, errors and printed output\<close>

text \<open>
  The cipher of \<^verbatim>\<open>basic_spn.py\<close> works on Python integers, which are unbounded:
  they are modelled by \<^typ>\<open>int\<close>, whose bit operations are those of Python
  (two's complement of unbounded width).

  A block or a round key reaches the engine as an integer, as an iterable of binary
  digits, or as an object of any other type.  For an object of another type the model
  keeps what the code reads of it: the text that \<^verbatim>\<open>type(obj)\<close> prints (in the warning
  of \<^verbatim>\<open>add_round_key\<close>) and how it answers \<^verbatim>\<open>state ^ obj\<close>.  There are two kinds
  of such objects here.  The class of the first kind defines no reflected exclusive-or
  (\<open>None\<close>): the operator raises \<^verbatim>\<open>TypeError\<close>.  The class of the second kind defines
  \<^verbatim>\<open>__rxor__\<close> and that method returns a Python integer (\<open>Some f\<close>, where \<open>f state\<close>
  is this integer), so that the state stays an integer.  An object whose reflected
  exclusive-or returns something else than an integer (the fixed-width integers of
  numpy return one of their own) is not a value of this type: what the layers do with
  such a state depends on its class.
\<close>

datatype error =
    ValueError          \<comment> \<open>\<^verbatim>\<open>raise ValueError("Value of the state ... is not allowed")\<close>\<close>
  | TypeError           \<comment> \<open>raised by the conversion or by an operator\<close>
  | IndexError          \<comment> \<open>raised by subscripting a sequence out of range\<close>
  | NotEnoughKeys       \<comment> \<open>\<^verbatim>\<open>raise Exception("Not enough keys ...")\<close> of the setter\<close>
  | DecryptWithoutKey   \<comment> \<open>\<^verbatim>\<open>raise Exception("You want to decrypt something without a key? ...")\<close>\<close>

datatype pyval =
    PInt int
  | PBits "bool list"
  | PObj string "(int \<Rightarrow> int) option"

text \<open>A computation prints lines and then returns a value or raises.\<close>

type_synonym 'a io = "string list \<times> (error + 'a)"

definition lift :: "error + 'a \<Rightarrow> 'a io" where
  "lift r = ([], r)"

definition bind_io :: "'a io \<Rightarrow> ('a \<Rightarrow> 'b io) \<Rightarrow> 'b io" where
  "bind_io m f =
     (case m of
        (out, Inl e) \<Rightarrow> (out, Inl e)
      | (out, Inr x) \<Rightarrow> (case f x of (out', r) \<Rightarrow> (out @ out', r)))"

section \<open>Python sequences\<close>

text \<open>\<^verbatim>\<open>xs[i]\<close>: a negative index counts from the end, out of range raises.\<close>

definition py_index :: "'a list \<Rightarrow> int \<Rightarrow> error + 'a" where
  "py_index xs i =
     (if 0 \<le> i \<and> i < int (length xs) then Inr (xs ! nat i)
      else if i < 0 \<and> - int (length xs) \<le> i then Inr (xs ! nat (int (length xs) + i))
      else Inl IndexError)"

text \<open>\<^verbatim>\<open>xs[:stop]\<close>: a negative stop counts from the end, and the bounds are clamped.\<close>

definition slice_to :: "'a list \<Rightarrow> int \<Rightarrow> 'a list" where
  "slice_to xs stop =
     (let n = int (length xs); j = (if stop < 0 then n + stop else stop)
      in take (nat j) xs)"

text \<open>
  \<^verbatim>\<open>xs[start::-1]\<close>: from index \<open>start\<close> down to index 0.  A negative start counts
  from the end (and gives nothing when it is still negative), a start past the end is
  clamped to the last index.
\<close>

definition slice_down_from :: "'a list \<Rightarrow> int \<Rightarrow> 'a list" where
  "slice_down_from xs start =
     (let n = int (length xs); j = (if start < 0 then n + start else start)
      in rev (take (nat (j + 1)) xs))"

section \<open>Conversions\<close>

text \<open>\<^verbatim>\<open>ZZ(list(state), 2)\<close>: the digits are read least significant first.\<close>

fun digits_to_int :: "bool list \<Rightarrow> int" where
  "digits_to_int [] = 0"
| "digits_to_int (b # bs) = of_bool b + 2 * digits_to_int bs"

fun iter_to_int :: "pyval \<Rightarrow> error + int" where
  "iter_to_int (PInt n) = Inr n"
| "iter_to_int (PBits bs) = Inr (digits_to_int bs)"
| "iter_to_int (PObj ty rxor) = Inl TypeError"

text \<open>
  \<^verbatim>\<open>vector(GF(2), ZZ(state).digits(2))\<close>: the binary digits, least significant first;
  the digits of a negative integer are those of its absolute value, negated, which are
  the same elements of GF(2).
\<close>

function digits2 :: "nat \<Rightarrow> bool list" where
  "digits2 n = (if n = 0 then [] else odd n # digits2 (n div 2))"
  by pat_completeness auto
termination
  by (relation "measure id") auto

declare digits2.simps [simp del]

definition int_to_vec :: "int \<Rightarrow> pyval" where
  "int_to_vec state = PBits (digits2 (nat \<bar>state\<bar>))"

section \<open>The tables\<close>

text \<open>\<^verbatim>\<open>self._pbox = [i+4*j for i in range(4) for j in range(4)]\<close>\<close>

definition pbox :: "nat list" where
  "pbox = concat (map (\<lambda>i. map (\<lambda>j. i + 4 * j) [0..<4]) [0..<4])"

text \<open>
  \<^verbatim>\<open>self._sbox = SBox(6, 4, 0xc, 5, 0, 7, 2, 0xe, 1, 0xf, 3, 0xd, 8, 0xa, 9, 0xb)\<close>:
  calling the S-box looks its argument up in the table, and its \<^verbatim>\<open>inverse()\<close> is the
  S-box of the table that holds, at each value, the index where the table has it.
\<close>

definition sbox_table :: "int list" where
  "sbox_table = [6, 4, 0xc, 5, 0, 7, 2, 0xe, 1, 0xf, 3, 0xd, 8, 0xa, 9, 0xb]"

fun index_of :: "int list \<Rightarrow> int \<Rightarrow> nat" where
  "index_of [] y = 0"
| "index_of (x # xs) y = (if x = y then 0 else Suc (index_of xs y))"

definition inverse_table :: "int list \<Rightarrow> int list" where
  "inverse_table t = map (\<lambda>y. int (index_of t (int y))) [0..<length t]"

definition sbox_call :: "int list \<Rightarrow> int \<Rightarrow> int" where
  "sbox_call t n = t ! nat n"

definition sbox :: "int \<Rightarrow> int" where
  "sbox = sbox_call sbox_table"

definition inverse_sbox :: "int \<Rightarrow> int" where
  "inverse_sbox = sbox_call (inverse_table sbox_table)"

section \<open>The layers\<close>

text \<open>The sanity check of every layer: \<^verbatim>\<open>state and not state % (0xffff + 1)\<close>.\<close>

definition not_allowed :: "int \<Rightarrow> bool" where
  "not_allowed state \<longleftrightarrow> state \<noteq> 0 \<and> state mod (0xffff + 1) = 0"

definition sbox_layer :: "int \<Rightarrow> bool \<Rightarrow> error + int" where
  "sbox_layer state is_inverse =
     (if not_allowed state then Inl ValueError
      else
        let sb = (if is_inverse then inverse_sbox else sbox)
        in Inr (fold (\<lambda>i res. res OR push_bit i (sb (drop_bit i state AND 0xf)))
                  [0, 4, 8, 12] 0))"

definition perm_layer :: "int \<Rightarrow> error + int" where
  "perm_layer state =
     (if not_allowed state then Inl ValueError
      else
        Inr (fold (\<lambda>(bit_index, perm_index) p_state.
                     if state AND push_bit bit_index 1 \<noteq> 0
                     then p_state OR push_bit perm_index 1
                     else p_state)
               (zip [0..<length pbox] pbox) 0))"

text \<open>
  \<^verbatim>\<open>state ^ round_key\<close> on an integer state: the exclusive-or of two integers; with
  an object of another type Python asks the object for its reflected operator and
  raises \<^verbatim>\<open>TypeError\<close> when there is none (as for a list of digits); when there is
  one, the result is the integer that it returns.
\<close>

fun py_xor :: "int \<Rightarrow> pyval \<Rightarrow> error + int" where
  "py_xor state (PInt k) = Inr (state XOR k)"
| "py_xor state (PBits bs) = Inl TypeError"
| "py_xor state (PObj ty None) = Inl TypeError"
| "py_xor state (PObj ty (Some rxor)) = Inr (rxor state)"

text \<open>\<^verbatim>\<open>f"Type of the round_key ({type(round_key)}) is not allowed"\<close>\<close>

fun type_text :: "pyval \<Rightarrow> string" where
  "type_text (PInt n) = ''int''"
| "type_text (PBits bs) = ''list''"
| "type_text (PObj ty rxor) = ty"

definition warning :: "pyval \<Rightarrow> string" where
  "warning round_key = ''Type of the round_key ('' @ type_text round_key @ '') is not allowed''"

text \<open>
  \<^verbatim>\<open>add_round_key\<close>: a key that is not an integer is converted; a \<^verbatim>\<open>TypeError\<close> of
  the conversion is caught, a line is printed, and the key stays as it was supplied.
  Then the state is combined with the key.
\<close>

definition add_round_key :: "int \<Rightarrow> pyval \<Rightarrow> int io" where
  "add_round_key state round_key =
     (if not_allowed state then ([], Inl ValueError)
      else
        bind_io
          (case round_key of
             PInt k \<Rightarrow> ([], Inr round_key)
           | _ \<Rightarrow> (case iter_to_int round_key of
                     Inr k \<Rightarrow> ([], Inr (PInt k))
                   | Inl TypeError \<Rightarrow> ([warning round_key], Inr round_key)
                   | Inl e \<Rightarrow> ([], Inl e)))
          (\<lambda>round_key. lift (py_xor state round_key)))"

definition round :: "int \<Rightarrow> pyval \<Rightarrow> bool \<Rightarrow> int io" where
  "round state round_key is_inverse =
     (if is_inverse then
        bind_io (lift (perm_layer state)) (\<lambda>state.
        bind_io (lift (sbox_layer state is_inverse)) (\<lambda>state.
        add_round_key state round_key))
      else
        bind_io (add_round_key state round_key) (\<lambda>state.
        bind_io (lift (sbox_layer state is_inverse)) (\<lambda>state.
        lift (perm_layer state))))"

section \<open>The engine\<close>

text \<open>
  The attributes of a \<^verbatim>\<open>cipher_four\<close> object that its methods read or write:
  \<^verbatim>\<open>_rounds\<close>, \<^verbatim>\<open>_vec_out\<close> and \<^verbatim>\<open>_round_keys\<close> (\<open>None\<close> until a key set is
  stored).  The two tables are the constants above.
\<close>

record engine =
  p_rounds :: int
  p_vec_out :: bool
  p_round_keys :: "pyval list option"

text \<open>\<^verbatim>\<open>__init__(self, rounds=5, vector_output=False, round_keys=None)\<close>\<close>

definition init :: "int \<Rightarrow> bool \<Rightarrow> pyval list option \<Rightarrow> engine" where
  "init rounds vector_output round_keys =
     \<lparr>p_rounds = rounds, p_vec_out = vector_output, p_round_keys = round_keys\<rparr>"

text \<open>The property \<^verbatim>\<open>round_keys\<close> and its setter.\<close>

definition round_keys :: "engine \<Rightarrow> pyval list option" where
  "round_keys self = p_round_keys self"

definition round_keys_setter :: "engine \<Rightarrow> pyval list \<Rightarrow> error + engine" where
  "round_keys_setter self keys =
     (if int (length keys) < p_rounds self then Inl NotEnoughKeys
      else Inr (self\<lparr>p_round_keys := Some keys\<rparr>))"

text \<open>
  \<^verbatim>\<open>[key_gen.randrange(0xffff) for i in range(self._rounds + 1)]\<close>: the system's
  random source is outside the program; \<open>draw i\<close> stands for what it delivers at the
  \<open>i\<close>-th request of a call, brought into the range of \<^verbatim>\<open>randrange(0xffff)\<close>.
\<close>

definition generate_keys :: "engine \<Rightarrow> (nat \<Rightarrow> int) \<Rightarrow> pyval list" where
  "generate_keys self draw =
     map (\<lambda>i. PInt (draw i mod 0xffff)) [0..<nat (p_rounds self + 1)]"

text \<open>\<^verbatim>\<open>not round_keys\<close>: true of \<^verbatim>\<open>None\<close> and of an empty sequence.\<close>

fun is_falsy :: "pyval list option \<Rightarrow> bool" where
  "is_falsy None = True"
| "is_falsy (Some []) = True"
| "is_falsy (Some (k # ks)) = False"

text \<open>\<^verbatim>\<open>for key in keys: state = self.round(state, key, inverse)\<close>\<close>

fun rounds_loop :: "int \<Rightarrow> pyval list \<Rightarrow> bool \<Rightarrow> int io" where
  "rounds_loop state [] is_inverse = ([], Inr state)"
| "rounds_loop state (key # keys) is_inverse =
     bind_io (round state key is_inverse) (\<lambda>state. rounds_loop state keys is_inverse)"

text \<open>
  \<^verbatim>\<open>encrypt(self, plaintext, round_keys=None)\<close> returns the engine as the call leaves
  it, the lines printed, and the ciphertext or the exception.  Subscripting \<^verbatim>\<open>None\<close>
  raises \<^verbatim>\<open>TypeError\<close>.
\<close>

definition encrypt ::
  "engine \<Rightarrow> pyval \<Rightarrow> pyval list option \<Rightarrow> (nat \<Rightarrow> int) \<Rightarrow> engine \<times> pyval io" where
  "encrypt self plaintext round_keys_arg draw =
     (case iter_to_int plaintext of
        Inl e \<Rightarrow> (self, [], Inl e)
      | Inr state \<Rightarrow>
          (case (if is_falsy round_keys_arg
                 then (case round_keys_setter self (generate_keys self draw) of
                         Inl e \<Rightarrow> Inl e
                       | Inr self' \<Rightarrow> Inr (self', round_keys self'))
                 else Inr (self, round_keys_arg)) of
             Inl e \<Rightarrow> (self, [], Inl e)
           | Inr (self', None) \<Rightarrow> (self', [], Inl TypeError)
           | Inr (self', Some keys) \<Rightarrow>
               (self',
                bind_io (rounds_loop state (slice_to keys (p_rounds self' - 1)) False) (\<lambda>state.
                bind_io (lift (py_index keys (p_rounds self' - 1))) (\<lambda>key.
                bind_io (add_round_key state key) (\<lambda>state.
                bind_io (lift (sbox_layer state False)) (\<lambda>state.
                bind_io (lift (py_index keys (p_rounds self'))) (\<lambda>key.
                bind_io (add_round_key state key) (\<lambda>state.
                lift (Inr (if p_vec_out self' then int_to_vec state else PInt state)))))))))))"

text \<open>\<^verbatim>\<open>decrypt(self, ciphertext, round_keys=None)\<close>; it assigns no attribute.\<close>

definition decrypt :: "engine \<Rightarrow> pyval \<Rightarrow> pyval list option \<Rightarrow> engine \<times> pyval io" where
  "decrypt self ciphertext round_keys_arg =
     (self,
      case iter_to_int ciphertext of
        Inl e \<Rightarrow> ([], Inl e)
      | Inr state \<Rightarrow>
          if not_allowed state then ([], Inl ValueError)
          else
            (case (case round_keys_arg of
                     None \<Rightarrow> (case round_keys self of
                                None \<Rightarrow> Inl DecryptWithoutKey
                              | Some keys \<Rightarrow> Inr keys)
                   | Some keys \<Rightarrow> Inr keys) of
               Inl e \<Rightarrow> ([], Inl e)
             | Inr keys \<Rightarrow>
                 bind_io (lift (py_index keys (p_rounds self))) (\<lambda>key.
                 bind_io (add_round_key state key) (\<lambda>state.
                 bind_io (lift (sbox_layer state True)) (\<lambda>state.
                 bind_io (lift (py_index keys (p_rounds self - 1))) (\<lambda>key.
                 bind_io (add_round_key state key) (\<lambda>state.
                 bind_io (rounds_loop state (slice_down_from keys (p_rounds self - 2)) True) (\<lambda>state.
                 lift (Inr (if p_vec_out self then int_to_vec state else PInt state))))))))))"

text \<open>\<^verbatim>\<open>__call__(self, input_, round_keys=None, alg=0)\<close>\<close>

definition call ::
  "engine \<Rightarrow> pyval \<Rightarrow> pyval list option \<Rightarrow> int \<Rightarrow> (nat \<Rightarrow> int) \<Rightarrow> engine \<times> pyval io" where
  "call self input round_keys_arg alg draw =
     (if alg \<noteq> 0 then decrypt self input round_keys_arg
      else encrypt self input round_keys_arg draw)"

section \<open>The loops of the layers, and the cipher as the specification words it\<close>

text \<open>
  The loop of \<^const>\<open>perm_layer\<close> and the loop of \<^const>\<open>sbox_layer\<close>, without the
  sanity check in front of them.
\<close>

definition permute :: "int \<Rightarrow> int" where
  "permute state =
     fold (\<lambda>(bit_index, perm_index) p_state.
             if state AND push_bit bit_index 1 \<noteq> 0
             then p_state OR push_bit perm_index 1
             else p_state)
       (zip [0..<length pbox] pbox) 0"

definition substitute :: "(int \<Rightarrow> int) \<Rightarrow> int \<Rightarrow> int" where
  "substitute sb state =
     fold (\<lambda>i res. res OR push_bit i (sb (drop_bit i state AND 0xf))) [0, 4, 8, 12] 0"

text \<open>The four nibbles of a block, and a block put together from four nibbles.\<close>

definition nibble :: "nat \<Rightarrow> int \<Rightarrow> int" where
  "nibble j state = take_bit 4 (drop_bit (4 * j) state)"

definition join :: "int \<Rightarrow> int \<Rightarrow> int \<Rightarrow> int \<Rightarrow> int" where
  "join a b c d = a OR push_bit 4 b OR push_bit 8 c OR push_bit 12 d"

definition setbit :: "bool \<Rightarrow> nat \<Rightarrow> int" where
  "setbit c k = (if c then push_bit k 1 else 0)"

text \<open>A block in its integer form: an integer of \<open>[0, 65535]\<close>.\<close>

definition block :: "int \<Rightarrow> bool" where
  "block x \<longleftrightarrow> 0 \<le> x \<and> x \<le> 65535"

text \<open>
  The rounds as the specification describes them.  A full round mixes the round key in,
  substitutes the four nibbles and permutes the bits; the last round mixes a key in,
  substitutes, and mixes the final key in.  Encryption with the keys \<open>k0 .. kR\<close> applies
  the full round for each of \<open>k0 .. k(R-2)\<close> in order and then the last round with
  \<open>k(R-1)\<close> and \<open>kR\<close>.  The inverse of a full round permutes, substitutes back and
  mixes the key in.
\<close>

definition mix :: "int \<Rightarrow> int \<Rightarrow> int" where
  "mix state key = state XOR key"

definition full_round :: "int \<Rightarrow> int \<Rightarrow> int" where
  "full_round state key = permute (substitute sbox (mix state key))"

definition last_round :: "int \<Rightarrow> int \<Rightarrow> int \<Rightarrow> int" where
  "last_round state key final_key = mix (substitute sbox (mix state key)) final_key"

definition spec_encrypt :: "nat \<Rightarrow> int list \<Rightarrow> int \<Rightarrow> int" where
  "spec_encrypt R ks P =
     last_round (foldl full_round P (map (\<lambda>i. ks ! i) [0..<R - 1])) (ks ! (R - 1)) (ks ! R)"

definition inverse_round :: "int \<Rightarrow> int \<Rightarrow> int" where
  "inverse_round state key = mix (substitute inverse_sbox (permute state)) key"

definition inverse_last_round :: "int \<Rightarrow> int \<Rightarrow> int \<Rightarrow> int" where
  "inverse_last_round state final_key key = mix (substitute inverse_sbox (mix state final_key)) key"

text \<open>The result in the format the engine's flag asks for.\<close>

definition formatted :: "engine \<Rightarrow> int \<Rightarrow> pyval" where
  "formatted self state = (if p_vec_out self then int_to_vec state else PInt state)"

text \<open>A random source that delivers the same value at every request.\<close>

definition constant_draw :: "int \<Rightarrow> nat \<Rightarrow> int" where
  "constant_draw v i = v"

section \<open>The tables, evaluated\<close>

lemma pbox_eq: "pbox = [0, 4, 8, 12, 1, 5, 9, 13, 2, 6, 10, 14, 3, 7, 11, 15]"
  by code_simp

lemma enumerate_pbox:
  "zip [0..<length pbox] pbox =
     [(0, 0), (1, 4), (2, 8), (3, 12), (4, 1), (5, 5), (6, 9), (7, 13),
      (8, 2), (9, 6), (10, 10), (11, 14), (12, 3), (13, 7), (14, 11), (15, 15)]"
  by code_simp

lemma inverse_table_eq:
  "inverse_table sbox_table = [4, 8, 6, 10, 1, 3, 0, 5, 12, 14, 13, 15, 2, 11, 7, 9]"
  by code_simp

lemma lt16_cases:
  "(j::nat) < 16 \<Longrightarrow>
     j = 15 \<or> j = 14 \<or> j = 13 \<or> j = 12 \<or> j = 11 \<or> j = 10 \<or> j = 9 \<or> j = 8 \<or>
     j = 7 \<or> j = 6 \<or> j = 5 \<or> j = 4 \<or> j = 3 \<or> j = 2 \<or> j = 1 \<or> j = 0"
  by arith

lemma int16_cases:
  "0 \<le> (x::int) \<Longrightarrow> x < 16 \<Longrightarrow>
     x = 15 \<or> x = 14 \<or> x = 13 \<or> x = 12 \<or> x = 11 \<or> x = 10 \<or> x = 9 \<or> x = 8 \<or>
     x = 7 \<or> x = 6 \<or> x = 5 \<or> x = 4 \<or> x = 3 \<or> x = 2 \<or> x = 1 \<or> x = 0"
  by arith

lemma sbox_range: "0 \<le> n \<Longrightarrow> n < 16 \<Longrightarrow> 0 \<le> sbox n \<and> sbox n < 16"
  by (drule (1) int16_cases, elim disjE) (simp_all add: sbox_def sbox_call_def sbox_table_def)

lemma inverse_sbox_range: "0 \<le> n \<Longrightarrow> n < 16 \<Longrightarrow> 0 \<le> inverse_sbox n \<and> inverse_sbox n < 16"
  unfolding inverse_sbox_def inverse_table_eq
  by (drule (1) int16_cases, elim disjE) (simp_all add: sbox_call_def)

lemma inverse_sbox_sbox: "0 \<le> n \<Longrightarrow> n < 16 \<Longrightarrow> inverse_sbox (sbox n) = n"
  unfolding inverse_sbox_def inverse_table_eq
  by (drule (1) int16_cases, elim disjE) (simp_all add: sbox_def sbox_call_def sbox_table_def)

lemma sbox_inverse_sbox: "0 \<le> n \<Longrightarrow> n < 16 \<Longrightarrow> sbox (inverse_sbox n) = n"
  unfolding inverse_sbox_def inverse_table_eq
  by (drule (1) int16_cases, elim disjE) (simp_all add: sbox_def sbox_call_def sbox_table_def)

section \<open>Blocks and their bits\<close>

lemma block_iff_take_bit: "block x \<longleftrightarrow> take_bit 16 x = x"
  by (auto simp: block_def take_bit_int_eq_self_iff)

lemma block_bit: "block s \<Longrightarrow> bit s n \<Longrightarrow> n < 16"
  unfolding block_iff_take_bit by (metis bit_take_bit_iff)

lemma blockI: "(\<And>n. bit s n \<Longrightarrow> n < 16) \<Longrightarrow> block s"
  unfolding block_iff_take_bit by (rule bit_eqI) (auto simp: bit_take_bit_iff)

lemma block_allowed: "block s \<Longrightarrow> \<not> not_allowed s"
  by (simp add: block_def not_allowed_def)

lemma block_mix: "block a \<Longrightarrow> block b \<Longrightarrow> block (mix a b)"
  unfolding block_iff_take_bit mix_def by (simp only: take_bit_xor)

lemma mix_mix: "mix (mix a k) k = a"
  by (simp add: mix_def xor.assoc)

section \<open>The permutation of the bits\<close>

lemma and_bit_test: "(state AND push_bit n 1 \<noteq> 0) = bit (state::int) n"
  by (simp add: bit_iff_and_push_bit_not_eq_0)

lemma bit_setbit: "bit (setbit c k) n = (c \<and> n = k)"
  by (auto simp: setbit_def bit_simps)

lemma step_setbit: "(if c then p OR push_bit k 1 else p) = p OR setbit c k"
  by (simp add: setbit_def)

lemma permute_or:
  "permute s =
     setbit (bit s 0) 0 OR setbit (bit s 1) 4 OR setbit (bit s 2) 8 OR setbit (bit s 3) 12 OR
     setbit (bit s 4) 1 OR setbit (bit s 5) 5 OR setbit (bit s 6) 9 OR setbit (bit s 7) 13 OR
     setbit (bit s 8) 2 OR setbit (bit s 9) 6 OR setbit (bit s 10) 10 OR setbit (bit s 11) 14 OR
     setbit (bit s 12) 3 OR setbit (bit s 13) 7 OR setbit (bit s 14) 11 OR setbit (bit s 15) 15"
  unfolding permute_def enumerate_pbox fold_simps and_bit_test prod.case step_setbit o_apply
  by (simp only: or.left_neutral or.assoc)

lemma bit_permute_cases:
  "bit (permute s) n =
     ((n = 0 \<and> bit s 0) \<or> (n = 4 \<and> bit s 1) \<or> (n = 8 \<and> bit s 2) \<or> (n = 12 \<and> bit s 3) \<or>
      (n = 1 \<and> bit s 4) \<or> (n = 5 \<and> bit s 5) \<or> (n = 9 \<and> bit s 6) \<or> (n = 13 \<and> bit s 7) \<or>
      (n = 2 \<and> bit s 8) \<or> (n = 6 \<and> bit s 9) \<or> (n = 10 \<and> bit s 10) \<or> (n = 14 \<and> bit s 11) \<or>
      (n = 3 \<and> bit s 12) \<or> (n = 7 \<and> bit s 13) \<or> (n = 11 \<and> bit s 14) \<or> (n = 15 \<and> bit s 15))"
  unfolding permute_or bit_or_iff bit_setbit
  by (simp only: conj_commute disj_assoc)

lemma bit_permute: "bit (permute s) n = (n < 16 \<and> bit s ((n mod 4) * 4 + n div 4))"
proof (cases "n < 16")
  case True
  from lt16_cases [OF this] show ?thesis
    by (elim disjE) (simp_all add: bit_permute_cases numeral_2_eq_2)
next
  case False
  then show ?thesis by (simp add: bit_permute_cases)
qed

lemma block_permute: "block (permute s)"
  by (rule blockI) (simp add: bit_permute)

lemma permute_permute:
  assumes "block s"
  shows "permute (permute s) = s"
proof (rule bit_eqI)
  fix n
  show "bit (permute (permute s)) n = bit s n"
  proof (cases "n < 16")
    case True
    from lt16_cases [OF this] show ?thesis
      by (elim disjE) (simp_all add: bit_permute numeral_2_eq_2)
  next
    case False
    then show ?thesis using block_bit [OF assms] by (auto simp add: bit_permute)
  qed
qed

lemma perm_layer_eq:
  "perm_layer s = (if not_allowed s then Inl ValueError else Inr (permute s))"
  by (simp add: perm_layer_def permute_def)

section \<open>The substitution of the nibbles\<close>

lemma and_15: "(x::int) AND 0xf = take_bit 4 x"
  by (simp add: take_bit_eq_mask mask_eq_exp_minus_1)

lemma substitute_join:
  "substitute sb s = join (sb (nibble 0 s)) (sb (nibble 1 s)) (sb (nibble 2 s)) (sb (nibble 3 s))"
  by (simp add: substitute_def join_def nibble_def and_15 or.assoc)

lemma nibble_range: "0 \<le> nibble j s \<and> nibble j s < 16"
  using take_bit_int_less_exp [of 4 "drop_bit (4 * j) s"] by (simp add: nibble_def)

lemma take_bit_4_iff: "take_bit 4 (x::int) = x \<longleftrightarrow> 0 \<le> x \<and> x < 16"
  by (simp add: take_bit_int_eq_self_iff)

lemma nibble_bit: "take_bit 4 (a::int) = a \<Longrightarrow> bit a n \<Longrightarrow> n < 4"
  by (metis bit_take_bit_iff)

lemma nibble_join:
  assumes "take_bit 4 a = a" "take_bit 4 b = b" "take_bit 4 c = c" "take_bit 4 d = d"
  shows "nibble 0 (join a b c d) = a" "nibble 1 (join a b c d) = b"
        "nibble 2 (join a b c d) = c" "nibble 3 (join a b c d) = d"
proof -
  note ba = nibble_bit [OF assms(1)] and bb = nibble_bit [OF assms(2)]
    and bc = nibble_bit [OF assms(3)] and bd = nibble_bit [OF assms(4)]
  show "nibble 0 (join a b c d) = a"
    by (rule bit_eqI) (auto simp: nibble_def join_def bit_simps dest: ba bb bc bd)
  show "nibble 1 (join a b c d) = b"
    by (rule bit_eqI) (auto simp: nibble_def join_def bit_simps dest: ba bb bc bd)
  show "nibble 2 (join a b c d) = c"
    by (rule bit_eqI) (auto simp: nibble_def join_def bit_simps dest: ba bb bc bd)
  show "nibble 3 (join a b c d) = d"
    by (rule bit_eqI) (auto simp: nibble_def join_def bit_simps dest: ba bb bc bd)
qed

lemma join_nibbles:
  assumes "block s"
  shows "join (nibble 0 s) (nibble 1 s) (nibble 2 s) (nibble 3 s) = s"
proof (rule bit_eqI)
  fix n
  show "bit (join (nibble 0 s) (nibble 1 s) (nibble 2 s) (nibble 3 s)) n = bit s n"
  proof (cases "n < 16")
    case True
    from lt16_cases [OF this] show ?thesis
      by (elim disjE) (simp_all add: nibble_def join_def bit_simps)
  next
    case False
    then have "\<not> bit s n" using block_bit [OF assms] by blast
    with False show ?thesis
      by (simp add: nibble_def join_def bit_simps)
  qed
qed

lemma block_join:
  assumes "take_bit 4 a = a" "take_bit 4 b = b" "take_bit 4 c = c" "take_bit 4 d = d"
  shows "block (join a b c d)"
proof (rule blockI)
  fix n
  note ba = nibble_bit [OF assms(1)] and bb = nibble_bit [OF assms(2)]
    and bc = nibble_bit [OF assms(3)] and bd = nibble_bit [OF assms(4)]
  assume "bit (join a b c d) n"
  then show "n < 16"
    by (auto simp: join_def bit_simps dest: ba bb bc bd)
qed

lemma block_substitute:
  assumes "\<And>n. 0 \<le> n \<Longrightarrow> n < 16 \<Longrightarrow> 0 \<le> sb n \<and> sb n < 16"
  shows "block (substitute sb s)"
proof -
  have r: "\<And>j. take_bit 4 (sb (nibble j s)) = sb (nibble j s)"
    using assms nibble_range by (simp add: take_bit_4_iff)
  show ?thesis unfolding substitute_join by (rule block_join) (rule r)+
qed

lemma block_substitute_sbox: "block (substitute sbox s)"
  by (rule block_substitute) (rule sbox_range)

lemma block_substitute_inverse_sbox: "block (substitute inverse_sbox s)"
  by (rule block_substitute) (rule inverse_sbox_range)

lemma substitute_inverse_substitute:
  assumes "block s"
  shows "substitute inverse_sbox (substitute sbox s) = s"
proof -
  have r: "\<And>j. take_bit 4 (sbox (nibble j s)) = sbox (nibble j s)"
    using sbox_range nibble_range by (simp add: take_bit_4_iff)
  have i: "\<And>j. inverse_sbox (sbox (nibble j s)) = nibble j s"
    using inverse_sbox_sbox nibble_range by simp
  show ?thesis
    unfolding substitute_join [of inverse_sbox]
    by (simp only: substitute_join [of sbox] nibble_join [OF r r r r] i join_nibbles [OF assms])
qed

lemma sbox_layer_eq:
  "sbox_layer s is_inverse =
     (if not_allowed s then Inl ValueError
      else Inr (substitute (if is_inverse then inverse_sbox else sbox) s))"
  by (simp add: sbox_layer_def substitute_def)

section \<open>Sequencing\<close>

lemma bind_io_Inr: "bind_io ([], Inr x) f = f x"
  by (simp add: bind_io_def split: prod.splits)

lemma bind_io_Inl: "bind_io (out, Inl e) f = (out, Inl e)"
  by (simp add: bind_io_def)

lemma bind_io_lift_Inr: "bind_io (lift (Inr x)) f = f x"
  by (simp add: lift_def bind_io_Inr)

lemma bind_io_lift_Inl: "bind_io (lift (Inl e)) f = ([], Inl e)"
  by (simp add: lift_def bind_io_Inl)

lemma py_index_from_end: "i < 0 \<Longrightarrow> - int (length xs) \<le> i \<Longrightarrow> nat (int (length xs) + i) < length xs"
  by arith

lemma py_index_from_start: "0 \<le> i \<Longrightarrow> i < int (length xs) \<Longrightarrow> nat i < length xs"
  by arith

lemma py_index_map:
  "py_index (map f xs) i = (case py_index xs i of Inl e \<Rightarrow> Inl e | Inr x \<Rightarrow> Inr (f x))"
  by (simp add: py_index_def py_index_from_end py_index_from_start)

lemma py_index_in_set:
  assumes "py_index xs i = Inr x"
  shows "x \<in> set xs"
proof (cases "0 \<le> i \<and> i < int (length xs)")
  case True
  then have "nat i < length xs" by arith
  then have "xs ! nat i \<in> set xs" by (rule nth_mem)
  with True assms show ?thesis by (simp add: py_index_def)
next
  case False
  with assms have "i < 0 \<and> - int (length xs) \<le> i" and "x = xs ! nat (int (length xs) + i)"
    by (simp_all add: py_index_def split: if_splits)
  then show ?thesis by (simp add: py_index_from_end)
qed

lemma slice_to_map: "slice_to (map f xs) n = map f (slice_to xs n)"
  by (simp add: slice_to_def Let_def take_map)

lemma slice_down_from_map: "slice_down_from (map f xs) n = map f (slice_down_from xs n)"
  by (simp add: slice_down_from_def Let_def take_map rev_map)

lemma set_slice_to: "set (slice_to xs n) \<subseteq> set xs"
  by (simp add: slice_to_def Let_def set_take_subset)

lemma set_slice_down_from: "set (slice_down_from xs n) \<subseteq> set xs"
  by (simp add: slice_down_from_def Let_def set_take_subset)

section \<open>The rounds on blocks and integer keys\<close>

lemma add_round_key_int:
  "\<not> not_allowed s \<Longrightarrow> add_round_key s (PInt k) = ([], Inr (mix s k))"
  by (simp add: add_round_key_def bind_io_Inr lift_def mix_def)

lemma block_full_round: "block (full_round s k)"
  by (simp add: full_round_def block_permute)

lemma block_last_round: "block k' \<Longrightarrow> block (last_round s k k')"
  by (simp add: last_round_def block_mix block_substitute_sbox)

lemma block_inverse_round: "block k \<Longrightarrow> block (inverse_round s k)"
  by (simp add: inverse_round_def block_mix block_substitute_inverse_sbox)

lemma block_inverse_last_round: "block k \<Longrightarrow> block (inverse_last_round s k' k)"
  by (simp add: inverse_last_round_def block_mix block_substitute_inverse_sbox)

lemma round_forward:
  assumes "block s" "block k"
  shows "round s (PInt k) False = ([], Inr (full_round s k))"
proof -
  have "\<not> not_allowed (mix s k)"
    using assms by (simp add: block_allowed block_mix)
  moreover have "\<not> not_allowed (substitute sbox (mix s k))"
    by (simp add: block_allowed block_substitute_sbox)
  ultimately show ?thesis
    using assms
    by (simp add: round_def add_round_key_int block_allowed bind_io_Inr bind_io_lift_Inr
        sbox_layer_eq perm_layer_eq full_round_def lift_def)
qed

lemma round_inverse:
  assumes "block s"
  shows "round s (PInt k) True = ([], Inr (inverse_round s k))"
proof -
  have "\<not> not_allowed (permute s)"
    by (simp add: block_allowed block_permute)
  moreover have "\<not> not_allowed (substitute inverse_sbox (permute s))"
    by (simp add: block_allowed block_substitute_inverse_sbox)
  ultimately show ?thesis
    using assms
    by (simp add: round_def add_round_key_int block_allowed bind_io_lift_Inr
        sbox_layer_eq perm_layer_eq inverse_round_def)
qed

lemma block_foldl_full_round: "block s \<Longrightarrow> block (foldl full_round s ks)"
  by (induction ks arbitrary: s) (simp_all add: block_full_round)

lemma block_foldl_inverse_round:
  "block s \<Longrightarrow> \<forall>k\<in>set ks. block k \<Longrightarrow> block (foldl inverse_round s ks)"
  by (induction ks arbitrary: s) (simp_all add: block_inverse_round)

lemma rounds_loop_forward:
  "block s \<Longrightarrow> \<forall>k\<in>set ks. block k \<Longrightarrow>
     rounds_loop s (map PInt ks) False = ([], Inr (foldl full_round s ks))"
  by (induction ks arbitrary: s) (simp_all add: round_forward bind_io_Inr block_full_round)

lemma rounds_loop_inverse:
  "block s \<Longrightarrow> \<forall>k\<in>set ks. block k \<Longrightarrow>
     rounds_loop s (map PInt ks) True = ([], Inr (foldl inverse_round s ks))"
  by (induction ks arbitrary: s) (simp_all add: round_inverse bind_io_Inr block_inverse_round)

section \<open>Encryption and decryption with integer keys\<close>

lemma encrypt_supplied:
  assumes "iter_to_int plaintext = Inr P" "keys \<noteq> []"
  shows "encrypt self plaintext (Some keys) draw =
     (self,
      bind_io (rounds_loop P (slice_to keys (p_rounds self - 1)) False) (\<lambda>state.
      bind_io (lift (py_index keys (p_rounds self - 1))) (\<lambda>key.
      bind_io (add_round_key state key) (\<lambda>state.
      bind_io (lift (sbox_layer state False)) (\<lambda>state.
      bind_io (lift (py_index keys (p_rounds self))) (\<lambda>key.
      bind_io (add_round_key state key) (\<lambda>state.
      lift (Inr (formatted self state)))))))))"
proof -
  from assms(2) obtain k ks where "keys = k # ks" by (cases keys) auto
  then show ?thesis
    by (simp add: encrypt_def assms(1) formatted_def)
qed

lemma decrypt_supplied:
  assumes "iter_to_int ciphertext = Inr C" "\<not> not_allowed C"
  shows "decrypt self ciphertext (Some keys) =
     (self,
      bind_io (lift (py_index keys (p_rounds self))) (\<lambda>key.
      bind_io (add_round_key C key) (\<lambda>state.
      bind_io (lift (sbox_layer state True)) (\<lambda>state.
      bind_io (lift (py_index keys (p_rounds self - 1))) (\<lambda>key.
      bind_io (add_round_key state key) (\<lambda>state.
      bind_io (rounds_loop state (slice_down_from keys (p_rounds self - 2)) True) (\<lambda>state.
      lift (Inr (formatted self state)))))))))"
  by (simp add: decrypt_def assms formatted_def)

lemma encrypt_int_keys:
  assumes P: "iter_to_int plaintext = Inr P" "block P"
    and ks: "ks \<noteq> []" "\<forall>k\<in>set ks. block k"
  shows "encrypt self plaintext (Some (map PInt ks)) draw =
     (self, [],
      case py_index ks (p_rounds self - 1) of
        Inl e \<Rightarrow> Inl e
      | Inr k \<Rightarrow>
          (case py_index ks (p_rounds self) of
             Inl e \<Rightarrow> Inl e
           | Inr k' \<Rightarrow>
               Inr (formatted self
                 (last_round (foldl full_round P (slice_to ks (p_rounds self - 1))) k k'))))"
proof -
  let ?xs = "slice_to ks (p_rounds self - 1)"
  let ?s = "foldl full_round P ?xs"
  have ne: "map PInt ks \<noteq> []" using ks(1) by simp
  have xs: "\<forall>k\<in>set ?xs. block k"
    using ks(2) set_slice_to [of ks] by blast
  have loop: "rounds_loop P (map PInt ?xs) False = ([], Inr ?s)"
    by (rule rounds_loop_forward [OF P(2) xs])
  have s: "\<not> not_allowed ?s"
    by (simp add: block_allowed block_foldl_full_round P(2))
  have sub: "\<not> not_allowed (substitute sbox (mix ?s k))" for k
    by (simp add: block_allowed block_substitute_sbox)
  have start: "encrypt self plaintext (Some (map PInt ks)) draw =
     (self,
      bind_io (lift (case py_index ks (p_rounds self - 1) of Inl e \<Rightarrow> Inl e | Inr k \<Rightarrow> Inr (PInt k))) (\<lambda>key.
      bind_io (add_round_key ?s key) (\<lambda>state.
      bind_io (lift (sbox_layer state False)) (\<lambda>state.
      bind_io (lift (case py_index ks (p_rounds self) of Inl e \<Rightarrow> Inl e | Inr k \<Rightarrow> Inr (PInt k))) (\<lambda>key.
      bind_io (add_round_key state key) (\<lambda>state.
      lift (Inr (formatted self state))))))))"
    unfolding encrypt_supplied [OF P(1) ne] slice_to_map loop bind_io_Inr py_index_map ..
  show ?thesis
  proof (cases "py_index ks (p_rounds self - 1)")
    case (Inl e)
    then show ?thesis
      unfolding start by (simp add: bind_io_lift_Inl)
  next
    case k: (Inr k)
    have "block k" by (rule bspec [OF ks(2) py_index_in_set [OF k]])
    then have m: "\<not> not_allowed (mix ?s k)"
      by (simp add: block_allowed block_mix block_foldl_full_round P(2))
    show ?thesis
    proof (cases "py_index ks (p_rounds self)")
      case (Inl e)
      then show ?thesis
        unfolding start
        by (simp add: k bind_io_lift_Inr bind_io_lift_Inl add_round_key_int s sbox_layer_eq
            sub m bind_io_Inr)
    next
      case k': (Inr k')
      show ?thesis
        unfolding start
        by (simp add: k k' bind_io_lift_Inr add_round_key_int s sbox_layer_eq
            sub m bind_io_Inr lift_def last_round_def)
    qed
  qed
qed

lemma decrypt_int_keys:
  assumes C: "iter_to_int ciphertext = Inr C" "block C"
    and ks: "\<forall>k\<in>set ks. block k"
  shows "decrypt self ciphertext (Some (map PInt ks)) =
     (self, [],
      case py_index ks (p_rounds self) of
        Inl e \<Rightarrow> Inl e
      | Inr k' \<Rightarrow>
          (case py_index ks (p_rounds self - 1) of
             Inl e \<Rightarrow> Inl e
           | Inr k \<Rightarrow>
               Inr (formatted self
                 (foldl inverse_round (inverse_last_round C k' k)
                    (slice_down_from ks (p_rounds self - 2))))))"
proof -
  let ?xs = "slice_down_from ks (p_rounds self - 2)"
  have xs: "\<forall>k\<in>set ?xs. block k"
    using ks set_slice_down_from [of ks] by blast
  have c: "\<not> not_allowed C" by (simp add: block_allowed C(2))
  have sub: "\<not> not_allowed (substitute inverse_sbox s)" for s
    by (simp add: block_allowed block_substitute_inverse_sbox)
  have start: "decrypt self ciphertext (Some (map PInt ks)) =
     (self,
      bind_io (lift (case py_index ks (p_rounds self) of Inl e \<Rightarrow> Inl e | Inr k \<Rightarrow> Inr (PInt k))) (\<lambda>key.
      bind_io (add_round_key C key) (\<lambda>state.
      bind_io (lift (sbox_layer state True)) (\<lambda>state.
      bind_io (lift (case py_index ks (p_rounds self - 1) of Inl e \<Rightarrow> Inl e | Inr k \<Rightarrow> Inr (PInt k))) (\<lambda>key.
      bind_io (add_round_key state key) (\<lambda>state.
      bind_io (rounds_loop state (map PInt ?xs) True) (\<lambda>state.
      lift (Inr (formatted self state)))))))))"
    unfolding decrypt_supplied [OF C(1) c] slice_down_from_map py_index_map ..
  show ?thesis
  proof (cases "py_index ks (p_rounds self)")
    case (Inl e)
    then show ?thesis
      unfolding start by (simp add: bind_io_lift_Inl)
  next
    case k': (Inr k')
    have "block k'" by (rule bspec [OF ks py_index_in_set [OF k']])
    then have m: "\<not> not_allowed (mix C k')"
      by (simp add: block_allowed block_mix C(2))
    show ?thesis
    proof (cases "py_index ks (p_rounds self - 1)")
      case (Inl e)
      then show ?thesis
        unfolding start
        by (simp add: k' bind_io_lift_Inr bind_io_lift_Inl add_round_key_int c sbox_layer_eq
            sub m bind_io_Inr)
    next
      case k: (Inr k)
      have bk: "block k" by (rule bspec [OF ks py_index_in_set [OF k]])
      have loop: "rounds_loop (inverse_last_round C k' k) (map PInt ?xs) True =
          ([], Inr (foldl inverse_round (inverse_last_round C k' k) ?xs))"
        by (rule rounds_loop_inverse [OF block_inverse_last_round [OF bk] xs])
      have "decrypt self ciphertext (Some (map PInt ks)) =
          (self, bind_io (rounds_loop (inverse_last_round C k' k) (map PInt ?xs) True)
             (\<lambda>state. lift (Inr (formatted self state))))"
        unfolding start
        by (simp add: k k' bind_io_lift_Inr add_round_key_int c sbox_layer_eq
            sub m bind_io_Inr inverse_last_round_def)
      then show ?thesis
        by (simp add: loop bind_io_Inr lift_def k k')
    qed
  qed
qed

section \<open>Undoing the rounds\<close>

lemma inverse_round_full_round:
  assumes "block s" "block k"
  shows "inverse_round (full_round s k) k = s"
  by (simp add: inverse_round_def full_round_def permute_permute block_substitute_sbox
      substitute_inverse_substitute block_mix assms mix_mix)

lemma inverse_last_round_last_round:
  assumes "block s" "block k"
  shows "inverse_last_round (last_round s k k') k' k = s"
  by (simp add: inverse_last_round_def last_round_def mix_mix
      substitute_inverse_substitute block_mix assms)

lemma foldl_inverse_round_full_round:
  "block s \<Longrightarrow> \<forall>k\<in>set ks. block k \<Longrightarrow>
     foldl inverse_round (foldl full_round s ks) (rev ks) = s"
  by (induction ks arbitrary: s) (simp_all add: block_full_round inverse_round_full_round)

lemma py_index_nth:
  "0 \<le> i \<Longrightarrow> nat i < length xs \<Longrightarrow> py_index xs i = Inr (xs ! nat i)"
  by (simp add: py_index_def)

lemma py_index_beyond:
  "0 \<le> i \<Longrightarrow> length xs \<le> nat i \<Longrightarrow> py_index xs i = Inl IndexError"
  by (simp add: py_index_def)

lemma slice_to_take: "0 \<le> n \<Longrightarrow> slice_to xs n = take (nat n) xs"
  by (simp add: slice_to_def Let_def)

lemma slice_down_from_rev_take:
  "0 \<le> n \<Longrightarrow> slice_down_from xs n = rev (take (nat (n + 1)) xs)"
  by (simp add: slice_down_from_def Let_def)

lemma take_eq_map_nth: "n \<le> length xs \<Longrightarrow> take n xs = map (\<lambda>i. xs ! i) [0..<n]"
  by (simp add: list_eq_iff_nth_eq)

lemma digits_to_int_digits2: "digits_to_int (digits2 n) = int n"
proof (induction n rule: digits2.induct)
  case (1 n)
  show ?case
  proof (cases "n = 0")
    case True
    then show ?thesis by (subst digits2.simps) simp
  next
    case False
    have "int n = of_bool (odd n) + 2 * int (n div 2)"
      by (cases "odd n") (auto elim: oddE)
    with False 1 show ?thesis
      by (subst digits2.simps) simp
  qed
qed

lemma iter_to_int_formatted: "0 \<le> s \<Longrightarrow> iter_to_int (formatted self s) = Inr s"
  by (simp add: formatted_def int_to_vec_def digits_to_int_digits2)

lemma block_nonneg: "block s \<Longrightarrow> 0 \<le> s"
  by (simp add: block_def)

text \<open>
  With two rounds or more, and as many keys as the rounds need, decryption undoes
  encryption, whichever the format of the result.
\<close>

lemma roundtrip_two_rounds_or_more:
  assumes R: "2 \<le> p_rounds self"
    and len: "int (length ks) = p_rounds self + 1"
    and ks: "\<forall>k\<in>set ks. block k"
    and P: "iter_to_int plaintext = Inr P" "block P"
  shows "\<exists>c. encrypt self plaintext (Some (map PInt ks)) draw = (self, [], Inr c) \<and>
             decrypt self c (Some (map PInt ks)) = (self, [], Inr (formatted self P))"
proof -
  let ?R = "p_rounds self"
  let ?xs = "take (nat (?R - 1)) ks"
  let ?k = "ks ! nat (?R - 1)" and ?k' = "ks ! nat ?R"
  let ?C = "last_round (foldl full_round P ?xs) ?k ?k'"
  have ne: "ks \<noteq> []" using R len by auto
  have i1: "py_index ks (?R - 1) = Inr ?k"
    using R len by (intro py_index_nth) auto
  have i2: "py_index ks ?R = Inr ?k'"
    using R len by (intro py_index_nth) auto
  have s1: "slice_to ks (?R - 1) = ?xs"
    using R by (simp add: slice_to_take)
  have s2: "slice_down_from ks (?R - 2) = rev ?xs"
    using R by (simp add: slice_down_from_rev_take)
  have bk: "block ?k" by (rule bspec [OF ks py_index_in_set [OF i1]])
  have bk': "block ?k'" by (rule bspec [OF ks py_index_in_set [OF i2]])
  have xs: "\<forall>k\<in>set ?xs. block k"
    using ks set_take_subset [of "nat (?R - 1)" ks] by blast
  have bs: "block (foldl full_round P ?xs)"
    by (rule block_foldl_full_round [OF P(2)])
  have bC: "block ?C" by (rule block_last_round [OF bk'])
  have enc: "encrypt self plaintext (Some (map PInt ks)) draw = (self, [], Inr (formatted self ?C))"
    by (simp add: encrypt_int_keys [OF P ne ks] i1 i2 s1)
  have "decrypt self (formatted self ?C) (Some (map PInt ks)) =
      (self, [], Inr (formatted self (foldl inverse_round
         (inverse_last_round ?C ?k' ?k) (rev ?xs))))"
    by (simp add: decrypt_int_keys [OF iter_to_int_formatted [OF block_nonneg [OF bC]] bC ks]
        i1 i2 s2)
  also have "inverse_last_round ?C ?k' ?k = foldl full_round P ?xs"
    by (rule inverse_last_round_last_round [OF bs bk])
  also have "foldl inverse_round (foldl full_round P ?xs) (rev ?xs) = P"
    by (rule foldl_inverse_round_full_round [OF P(2) xs])
  finally show ?thesis using enc by blast
qed

section \<open>Generated keys\<close>

lemma length_generate_keys: "length (generate_keys self draw) = nat (p_rounds self + 1)"
  by (simp add: generate_keys_def)

lemma setter_generate_keys:
  "round_keys_setter self (generate_keys self draw) =
     Inr (self\<lparr>p_round_keys := Some (generate_keys self draw)\<rparr>)"
  by (simp add: round_keys_setter_def length_generate_keys)

lemma encrypt_omitted:
  assumes "is_falsy ka" "iter_to_int plaintext = Inr P"
  shows "encrypt self plaintext ka draw =
     (self\<lparr>p_round_keys := Some (generate_keys self draw)\<rparr>,
      bind_io (rounds_loop P (slice_to (generate_keys self draw) (p_rounds self - 1)) False) (\<lambda>state.
      bind_io (lift (py_index (generate_keys self draw) (p_rounds self - 1))) (\<lambda>key.
      bind_io (add_round_key state key) (\<lambda>state.
      bind_io (lift (sbox_layer state False)) (\<lambda>state.
      bind_io (lift (py_index (generate_keys self draw) (p_rounds self))) (\<lambda>key.
      bind_io (add_round_key state key) (\<lambda>state.
      lift (Inr (formatted self state)))))))))"
  by (simp add: encrypt_def assms setter_generate_keys round_keys_def formatted_def)

lemma fst_encrypt_omitted:
  assumes "is_falsy ka" "iter_to_int plaintext = Inr P"
  shows "fst (encrypt self plaintext ka draw) =
     self\<lparr>p_round_keys := Some (generate_keys self draw)\<rparr>"
  by (simp add: encrypt_omitted [OF assms])

lemma snd_encrypt_omitted:
  assumes "is_falsy ka" "iter_to_int plaintext = Inr P" "generate_keys self draw \<noteq> []"
  shows "snd (encrypt self plaintext ka draw) =
     snd (encrypt self plaintext (Some (generate_keys self draw)) draw)"
  by (simp add: encrypt_omitted [OF assms(1,2)] encrypt_supplied [OF assms(2,3)])

lemma fst_decrypt: "fst (decrypt self ciphertext kd) = self"
  by (simp add: decrypt_def)

lemma decrypt_cached:
  assumes "round_keys self = Some keys"
  shows "decrypt self ciphertext None = decrypt self ciphertext (Some keys)"
proof (cases "iter_to_int ciphertext")
  case (Inl e)
  then show ?thesis by (simp add: decrypt_def)
next
  case (Inr C)
  then show ?thesis by (cases "not_allowed C") (simp_all add: decrypt_def assms)
qed

section \<open>The cipher on some inputs\<close>

lemma last_round_0: "last_round 0 0 0 = 0x6666"
  by code_simp

lemma inverse_rounds_0x6666:
  "foldl inverse_round (inverse_last_round 0x6666 0 0) [0, 0] = 0x4944"
  by code_simp

lemma five_rounds_0: "last_round (foldl full_round 0 [0, 0, 0, 0]) 0 0 = 50908"
  by code_simp

lemma substitute_6: "substitute sbox 6 = 0x6662"
  by code_simp

lemma stored_keys_0xffff:
  "foldl inverse_round (inverse_last_round 0xffff 7 7) [7, 7, 7, 7] = 39898"
  by code_simp

lemma generate_keys_constant_5:
  "generate_keys (init 5 False ks) (constant_draw v) =
     map PInt [v mod 65535, v mod 65535, v mod 65535, v mod 65535, v mod 65535, v mod 65535]"
proof -
  have "[0..<nat 6] = [0, 1, 2, 3, 4, 5]" by code_simp
  then show ?thesis
    by (simp add: generate_keys_def init_def constant_draw_def)
qed

section \<open>The checks of the test script\<close>

text \<open>
  \<^verbatim>\<open>testing_cipher_four.py\<close> encrypts \<open>0xffff\<close> with six (seven) keys 1 on an engine of
  five (six) rounds and decrypts the result with the same keys.
\<close>

lemma correctness_five_rounds:
  "\<exists>c. encrypt (init 5 False None) (PInt 0xffff) (Some (map PInt [1, 1, 1, 1, 1, 1])) draw =
          (init 5 False None, [], Inr c) \<and>
       decrypt (init 5 False None) c (Some (map PInt [1, 1, 1, 1, 1, 1])) =
          (init 5 False None, [], Inr (PInt 0xffff))"
proof -
  have "2 \<le> p_rounds (init 5 False None)"
    and "int (length [1, 1, 1, 1, 1, 1::int]) = p_rounds (init 5 False None) + 1"
    and "\<forall>k\<in>set [1, 1, 1, 1, 1, 1]. block k"
    and "iter_to_int (PInt 0xffff) = Inr 0xffff" and "block 0xffff"
    by (simp_all add: init_def block_def)
  from roundtrip_two_rounds_or_more [OF this]
  show ?thesis by (simp add: formatted_def init_def)
qed

lemma correctness_six_rounds:
  "\<exists>c. encrypt (init 6 False None) (PInt 0xffff) (Some (map PInt [1, 1, 1, 1, 1, 1, 1])) draw =
          (init 6 False None, [], Inr c) \<and>
       decrypt (init 6 False None) c (Some (map PInt [1, 1, 1, 1, 1, 1, 1])) =
          (init 6 False None, [], Inr (PInt 0xffff))"
proof -
  have "2 \<le> p_rounds (init 6 False None)"
    and "int (length [1, 1, 1, 1, 1, 1, 1::int]) = p_rounds (init 6 False None) + 1"
    and "\<forall>k\<in>set [1, 1, 1, 1, 1, 1, 1]. block k"
    and "iter_to_int (PInt 0xffff) = Inr 0xffff" and "block 0xffff"
    by (simp_all add: init_def block_def)
  from roundtrip_two_rounds_or_more [OF this]
  show ?thesis by (simp add: formatted_def init_def)
qed

section \<open>Runs that end in an exception\<close>

lemma bind_io_raises:
  assumes "\<And>x. \<exists>out e. f x = (out, Inl e)"
  shows "\<exists>out e. bind_io m f = (out, Inl e)"
proof (cases m)
  case (Pair out r)
  show ?thesis
  proof (cases r)
    case (Inl e)
    with Pair show ?thesis by (simp add: bind_io_def)
  next
    case (Inr x)
    from assms [of x] obtain out' e where "f x = (out', Inl e)" by blast
    with Pair Inr show ?thesis by (simp add: bind_io_def)
  qed
qed

lemma py_index_short:
  assumes "int (length keys) < R + 1"
  shows "py_index keys R = Inl IndexError"
proof -
  have "0 \<le> R" and "length keys \<le> nat R" using assms by arith+
  then show ?thesis by (rule py_index_beyond)
qed

lemma encrypt_short_keys_raises:
  assumes ne: "keys \<noteq> []" and len: "int (length keys) < p_rounds self + 1"
  shows "\<exists>out e. encrypt self input (Some keys) draw = (self, out, Inl e)"
proof (cases "iter_to_int input")
  case (Inl e)
  then show ?thesis by (simp add: encrypt_def)
next
  case (Inr P)
  have "\<exists>out e.
      bind_io (rounds_loop P (slice_to keys (p_rounds self - 1)) False) (\<lambda>state.
      bind_io (lift (py_index keys (p_rounds self - 1))) (\<lambda>key.
      bind_io (add_round_key state key) (\<lambda>state.
      bind_io (lift (sbox_layer state False)) (\<lambda>state.
      bind_io (lift (py_index keys (p_rounds self))) (\<lambda>key.
      bind_io (add_round_key state key) (\<lambda>state.
      lift (Inr (formatted self state)))))))) = (out, Inl e)"
    by (rule bind_io_raises, rule bind_io_raises, rule bind_io_raises, rule bind_io_raises)
      (simp add: py_index_short [OF len] bind_io_lift_Inl)
  then show ?thesis by (simp add: encrypt_supplied [OF Inr ne])
qed

lemma decrypt_short_keys_raises:
  assumes len: "int (length keys) < p_rounds self + 1"
  shows "\<exists>e. decrypt self input (Some keys) = (self, [], Inl e)"
proof (cases "iter_to_int input")
  case (Inl e)
  then show ?thesis by (simp add: decrypt_def)
next
  case (Inr C)
  show ?thesis
  proof (cases "not_allowed C")
    case True
    with Inr show ?thesis by (simp add: decrypt_def)
  next
    case False
    show ?thesis
      by (simp add: decrypt_supplied [OF Inr False] py_index_short [OF len] bind_io_lift_Inl)
  qed
qed

lemma block_drawn: "block (draw i mod 0xffff)"
proof -
  have "0 \<le> draw i mod 65535" and "draw i mod 65535 < 65535"
    by simp_all
  then show ?thesis by (simp add: block_def)
qed

lemma generate_keys_map:
  "generate_keys self draw =
     map PInt (map (\<lambda>i. draw i mod 0xffff) [0..<nat (p_rounds self + 1)])"
  by (simp add: generate_keys_def)

lemma encrypt_empty_keys_generates:
  assumes R: "0 \<le> p_rounds self" and P: "iter_to_int input = Inr P" "block P"
  shows "\<exists>c. encrypt self input (Some []) draw =
            (self\<lparr>p_round_keys := Some (generate_keys self draw)\<rparr>, [], Inr c) \<and>
          encrypt self input (Some (generate_keys self draw)) draw = (self, [], Inr c)"
proof -
  let ?ds = "map (\<lambda>i. draw i mod 0xffff) [0..<nat (p_rounds self + 1)]"
  let ?R = "p_rounds self"
  have g: "generate_keys self draw = map PInt ?ds" by (rule generate_keys_map)
  have len: "int (length ?ds) = ?R + 1" using R by simp
  then have ne: "?ds \<noteq> []" using R by auto
  have ds: "\<forall>k\<in>set ?ds. block k" by (auto simp: block_drawn)
  obtain k where i1: "py_index ?ds (?R - 1) = Inr k"
    using R len by (cases "?R = 0") (simp_all add: py_index_def)
  obtain k' where i2: "py_index ?ds ?R = Inr k'"
    using R len by (simp add: py_index_def)
  let ?c = "formatted self (last_round (foldl full_round P (slice_to ?ds (?R - 1))) k k')"
  have e: "encrypt self input (Some (generate_keys self draw)) draw = (self, [], Inr ?c)"
    unfolding g encrypt_int_keys [OF P ne ds] by (simp add: i1 i2)
  have f: "is_falsy (Some [])" by simp
  have gne: "generate_keys self draw \<noteq> []" using ne by (simp add: g)
  have "encrypt self input (Some []) draw =
      (self\<lparr>p_round_keys := Some (generate_keys self draw)\<rparr>, [], Inr ?c)"
    using fst_encrypt_omitted [OF f P(1), of self draw]
      snd_encrypt_omitted [OF f P(1) gne] e
    by (simp add: prod_eq_iff)
  with e show ?thesis by blast
qed

section \<open>The tables and the layers\<close>

text \<open>
  Claim C7.  The permutation table sends the bit position \<open>i\<close> to \<open>(i mod 4) * 4 + i div 4\<close>,
  for every \<open>i\<close> of \<open>0..15\<close>; on a state \<open>S\<close> of \<open>[0, 65535]\<close> the permutation layer
  returns a state whose bit at the image of \<open>i\<close> is the bit \<open>i\<close> of \<open>S\<close>, and applied
  to that state it returns \<open>S\<close> again.
\<close>

theorem perm_layer_involution:
  "length pbox = 16 \<and>
   (\<forall>i<16. pbox ! i = (i mod 4) * 4 + i div 4) \<and>
   (0 \<le> S \<and> S \<le> 65535 \<longrightarrow>
      (\<exists>T. perm_layer S = Inr T \<and> (\<forall>i<16. bit T (pbox ! i) = bit S i) \<and>
           perm_layer T = Inr S))"
proof (intro conjI impI)
  show "length pbox = 16" by (simp add: pbox_eq)
  show table: "\<forall>i<16. pbox ! i = (i mod 4) * 4 + i div 4"
  proof (intro allI impI)
    fix i :: nat
    assume "i < 16"
    from lt16_cases [OF this] show "pbox ! i = (i mod 4) * 4 + i div 4"
      unfolding pbox_eq by (elim disjE) simp_all
  qed
  assume "0 \<le> S \<and> S \<le> 65535"
  then have S: "block S" by (simp add: block_def)
  have "perm_layer S = Inr (permute S)"
    by (simp add: perm_layer_eq block_allowed S)
  moreover have "\<forall>i<16. bit (permute S) (pbox ! i) = bit S i"
  proof (intro allI impI)
    fix i :: nat
    assume "i < 16"
    from lt16_cases [OF this] show "bit (permute S) (pbox ! i) = bit S i"
      unfolding pbox_eq by (elim disjE) (simp_all add: bit_permute numeral_2_eq_2)
  qed
  moreover have "perm_layer (permute S) = Inr S"
    by (simp add: perm_layer_eq block_allowed block_permute permute_permute S)
  ultimately show "\<exists>T. perm_layer S = Inr T \<and> (\<forall>i<16. bit T (pbox ! i) = bit S i) \<and>
      perm_layer T = Inr S"
    by blast
qed

theorem perm_layer_involution_witness:
  "pbox ! 6 = (6 mod 4) * 4 + 6 div 4 \<and>
   (\<exists>T. perm_layer 0x1234 = Inr T \<and> perm_layer T = Inr 0x1234)"
proof -
  have "(6::nat) < 16" and "(0::int) \<le> 0x1234 \<and> (0x1234::int) \<le> 65535" by simp_all
  with perm_layer_involution [of "0x1234"] show ?thesis by blast
qed

text \<open>
  Claim C8.  The S-box sends \<open>0, 1, .., 15\<close> to
  \<open>6, 4, 12, 5, 0, 7, 2, 14, 1, 15, 3, 13, 8, 10, 9, 11\<close>; it is a bijection on the nibbles,
  and for every nibble \<open>n\<close> the inverse S-box undoes the S-box and the S-box undoes the
  inverse S-box.
\<close>

theorem sbox_bijection:
  "map sbox [0..15] = [6, 4, 12, 5, 0, 7, 2, 14, 1, 15, 3, 13, 8, 10, 9, 11] \<and>
   bij_betw sbox {0..15} {0..15} \<and>
   (\<forall>n\<in>{0..15}. inverse_sbox (sbox n) = n \<and> sbox (inverse_sbox n) = n)"
proof (intro conjI)
  show "map sbox [0..15] = [6, 4, 12, 5, 0, 7, 2, 14, 1, 15, 3, 13, 8, 10, 9, 11]"
    by code_simp
  show inv: "\<forall>n\<in>{0..15}. inverse_sbox (sbox n) = n \<and> sbox (inverse_sbox n) = n"
    by (simp add: inverse_sbox_sbox sbox_inverse_sbox)
  show "bij_betw sbox {0..15} {0..15}"
  proof (rule bij_betw_byWitness [where f' = inverse_sbox])
    show "\<forall>a\<in>{0..15}. inverse_sbox (sbox a) = a" using inv by blast
    show "\<forall>a'\<in>{0..15}. sbox (inverse_sbox a') = a'" using inv by blast
    show "sbox ` {0..15} \<subseteq> {0..15}"
      using sbox_range by fastforce
    show "inverse_sbox ` {0..15} \<subseteq> {0..15}"
      using inverse_sbox_range by fastforce
  qed
qed

theorem sbox_bijection_witness:
  "inverse_sbox (sbox 3) = 3 \<and> sbox (inverse_sbox 3) = 3"
proof -
  have "(3::int) \<in> {0..15}" by simp
  with sbox_bijection show ?thesis by blast
qed

text \<open>
  Claim C10.  On a state of \<open>[0, 65535]\<close> and an integer round key of \<open>[0, 65535]\<close>, the
  substitution layer (in either direction), the permutation layer and the mixing of the
  round key each return a value of \<open>[0, 65535]\<close>; none raises and none prints.
\<close>

theorem layers_preserve_block:
  assumes "0 \<le> s \<and> s \<le> 65535" and "0 \<le> k \<and> k \<le> 65535"
  shows "(\<exists>r. sbox_layer s is_inverse = Inr r \<and> 0 \<le> r \<and> r \<le> 65535) \<and>
         (\<exists>r. perm_layer s = Inr r \<and> 0 \<le> r \<and> r \<le> 65535) \<and>
         (\<exists>r. add_round_key s (PInt k) = ([], Inr r) \<and> 0 \<le> r \<and> r \<le> 65535)"
proof -
  from assms have s: "block s" and k: "block k" by (simp_all add: block_def)
  have a: "\<not> not_allowed s" by (rule block_allowed [OF s])
  have "block (substitute (if is_inverse then inverse_sbox else sbox) s)"
    by (simp add: block_substitute_sbox block_substitute_inverse_sbox)
  then have 1: "\<exists>r. sbox_layer s is_inverse = Inr r \<and> 0 \<le> r \<and> r \<le> 65535"
    unfolding sbox_layer_eq block_def using a by simp
  have 2: "\<exists>r. perm_layer s = Inr r \<and> 0 \<le> r \<and> r \<le> 65535"
    unfolding perm_layer_eq using a block_permute [of s] by (simp add: block_def)
  have 3: "\<exists>r. add_round_key s (PInt k) = ([], Inr r) \<and> 0 \<le> r \<and> r \<le> 65535"
    unfolding add_round_key_int [OF a] using block_mix [OF s k] by (simp add: block_def)
  from 1 2 3 show ?thesis by blast
qed

theorem layers_preserve_block_witness:
  "(\<exists>r. sbox_layer 0xffff False = Inr r \<and> 0 \<le> r \<and> r \<le> 65535) \<and>
   (\<exists>r. perm_layer 0xffff = Inr r \<and> 0 \<le> r \<and> r \<le> 65535) \<and>
   (\<exists>r. add_round_key 0xffff (PInt 1) = ([], Inr r) \<and> 0 \<le> r \<and> r \<le> 65535)"
proof -
  have "(0::int) \<le> 0xffff \<and> (0xffff::int) \<le> 65535" and "(0::int) \<le> 1 \<and> (1::int) \<le> 65535"
    by simp_all
  then show ?thesis by (rule layers_preserve_block)
qed

section \<open>Encryption and decryption\<close>

text \<open>
  Claim C1, at one round.  The engine is built with \<open>rounds = 1\<close>, the plaintext is 0 and
  the keys are \<open>[0, 0]\<close>: encryption returns \<open>0x6666\<close>, and decryption of \<open>0x6666\<close> with
  the same keys returns \<open>0x4944\<close>, not the plaintext.  In \<^verbatim>\<open>decrypt\<close> the slice
  \<^verbatim>\<open>round_keys[self._rounds-2::-1]\<close> starts at index \<open>-1\<close>, the last key, so the
  two keys are used once more in two inverse rounds.
\<close>

theorem one_round_decrypt_misses_plaintext:
  "encrypt (init 1 False None) (PInt 0) (Some [PInt 0, PInt 0]) draw =
     (init 1 False None, [], Inr (PInt 0x6666)) \<and>
   decrypt (init 1 False None) (PInt 0x6666) (Some [PInt 0, PInt 0]) =
     (init 1 False None, [], Inr (PInt 0x4944))"
proof
  have b: "block 0" "block 0x6666" "\<forall>k\<in>set [0, 0]. block k"
    by (simp_all add: block_def)
  have ne: "[0, 0::int] \<noteq> []" by simp
  have "encrypt (init 1 False None) (PInt 0) (Some (map PInt [0, 0])) draw =
      (init 1 False None, [], Inr (PInt 0x6666))"
    unfolding encrypt_int_keys [OF iter_to_int.simps(1) b(1) ne b(3)]
    by (simp add: init_def py_index_def slice_to_def formatted_def last_round_0)
  then show "encrypt (init 1 False None) (PInt 0) (Some [PInt 0, PInt 0]) draw =
      (init 1 False None, [], Inr (PInt 0x6666))"
    by simp
  have "decrypt (init 1 False None) (PInt 0x6666) (Some (map PInt [0, 0])) =
      (init 1 False None, [], Inr (PInt 0x4944))"
    unfolding decrypt_int_keys [OF iter_to_int.simps(1) b(2) b(3)]
    using inverse_rounds_0x6666
    by (simp add: init_def py_index_def slice_down_from_def formatted_def)
  then show "decrypt (init 1 False None) (PInt 0x6666) (Some [PInt 0, PInt 0]) =
      (init 1 False None, [], Inr (PInt 0x4944))"
    by simp
qed

text \<open>
  Claim C2.  For an engine of \<open>R \<ge> 1\<close> rounds, a block as plaintext and the keys
  \<open>k0 .. kR\<close>, \<open>R + 1\<close> integers of \<open>[0, 65535]\<close>, \<^const>\<open>encrypt\<close> returns what the
  rounds of the specification compute: the full round (mix, substitute, permute) for each
  of \<open>k0 .. k(R-2)\<close> in order, each on the state the one before returned, then the last
  round (mix with \<open>k(R-1)\<close>, substitute, mix with \<open>kR\<close>).  The result is a block, in the
  format of the engine's flag; nothing is printed and the engine is unchanged.
\<close>

theorem encrypt_follows_rounds:
  assumes R: "1 \<le> p_rounds self"
    and len: "int (length ks) = p_rounds self + 1"
    and ks: "\<forall>k\<in>set ks. block k"
    and P: "iter_to_int plaintext = Inr P" "block P"
  shows "encrypt self plaintext (Some (map PInt ks)) draw =
           (self, [], Inr (formatted self (spec_encrypt (nat (p_rounds self)) ks P))) \<and>
         block (spec_encrypt (nat (p_rounds self)) ks P)"
proof -
  let ?R = "p_rounds self"
  have ne: "ks \<noteq> []" using R len by auto
  have n1: "nat (?R - 1) = nat ?R - 1" using R by arith
  have i1: "py_index ks (?R - 1) = Inr (ks ! (nat ?R - 1))"
    using R len py_index_nth [of "?R - 1" ks] by (simp add: n1)
  have i2: "py_index ks ?R = Inr (ks ! nat ?R)"
    using R len by (intro py_index_nth) auto
  have "nat ?R - 1 \<le> length ks" using R len by arith
  then have s1: "slice_to ks (?R - 1) = map (\<lambda>i. ks ! i) [0..<nat ?R - 1]"
    using R by (simp add: slice_to_take n1 take_eq_map_nth)
  have bk': "block (ks ! nat ?R)" by (rule bspec [OF ks py_index_in_set [OF i2]])
  have enc: "encrypt self plaintext (Some (map PInt ks)) draw =
      (self, [], Inr (formatted self (spec_encrypt (nat ?R) ks P)))"
    by (simp add: encrypt_int_keys [OF P ne ks] i1 i2 s1 spec_encrypt_def)
  have "block (spec_encrypt (nat ?R) ks P)"
    unfolding spec_encrypt_def by (rule block_last_round [OF bk'])
  with enc show ?thesis by simp
qed

theorem encrypt_follows_rounds_witness:
  "encrypt (init 5 False None) (PInt 0xffff) (Some (map PInt [1, 1, 1, 1, 1, 1]))
       (constant_draw 0) =
     (init 5 False None, [],
      Inr (formatted (init 5 False None)
        (spec_encrypt (nat (p_rounds (init 5 False None))) [1, 1, 1, 1, 1, 1] 0xffff))) \<and>
   block (spec_encrypt (nat (p_rounds (init 5 False None))) [1, 1, 1, 1, 1, 1] 0xffff)"
proof -
  have "1 \<le> p_rounds (init 5 False None)"
    and "int (length [1, 1, 1, 1, 1, 1::int]) = p_rounds (init 5 False None) + 1"
    and "\<forall>k\<in>set [1, 1, 1, 1, 1, 1]. block k"
    and "iter_to_int (PInt 0xffff) = Inr 0xffff" and "block 0xffff"
    by (simp_all add: init_def block_def)
  then show ?thesis by (rule encrypt_follows_rounds)
qed

text \<open>
  Claim C3 as stated fails: the engine has five rounds and \<^verbatim>\<open>encrypt\<close> receives the
  empty key sequence, shorter than the six keys of five rounds.  The test
  \<^verbatim>\<open>not round_keys\<close> takes the empty sequence for omitted keys: six keys are generated
  and stored, and the ciphertext is returned without any exception.
\<close>

theorem encrypt_empty_keys_returns:
  "int (length ([] :: pyval list)) < p_rounds (init 5 False None) + 1 \<and>
   encrypt (init 5 False None) (PInt 0) (Some []) (constant_draw 0) =
     (init 5 False (Some [PInt 0, PInt 0, PInt 0, PInt 0, PInt 0, PInt 0]), [],
      Inr (PInt 50908))"
proof
  show "int (length ([] :: pyval list)) < p_rounds (init 5 False None) + 1"
    by (simp add: init_def)
  let ?self = "init 5 False None"
  let ?self' = "init 5 False (Some [PInt 0, PInt 0, PInt 0, PInt 0, PInt 0, PInt 0])"
  have g: "generate_keys ?self (constant_draw 0) = map PInt [0, 0, 0, 0, 0, 0]"
    by (simp add: generate_keys_constant_5)
  have b: "block 0" "\<forall>k\<in>set [0, 0, 0, 0, 0, 0]. block k"
    by (simp_all add: block_def)
  have ne: "[0, 0, 0, 0, 0, 0::int] \<noteq> []" by simp
  have f: "is_falsy (Some [])" by simp
  have 1: "fst (encrypt ?self (PInt 0) (Some []) (constant_draw 0)) = ?self'"
    unfolding fst_encrypt_omitted [OF f iter_to_int.simps(1)] g by (simp add: init_def)
  have "snd (encrypt ?self (PInt 0) (Some []) (constant_draw 0)) =
      snd (encrypt ?self (PInt 0) (Some (map PInt [0, 0, 0, 0, 0, 0])) (constant_draw 0))"
    using snd_encrypt_omitted [OF f iter_to_int.simps(1), of ?self "constant_draw 0"]
    unfolding g by simp
  also have "\<dots> = ([], Inr (PInt 50908))"
    unfolding encrypt_int_keys [OF iter_to_int.simps(1) b(1) ne b(2)]
    using five_rounds_0
    by (simp add: init_def py_index_def slice_to_def formatted_def)
  finally show "encrypt ?self (PInt 0) (Some []) (constant_draw 0) = (?self', [], Inr (PInt 50908))"
    using 1 by (simp add: prod_eq_iff)
qed

text \<open>
  Claim C3, amended.  With every key sequence shorter than \<open>rounds + 1\<close>, whatever its keys
  and whatever the block, \<^verbatim>\<open>decrypt\<close> raises an exception, and so does \<^verbatim>\<open>encrypt\<close>
  unless the sequence is empty; the engine is as it was.  \<^verbatim>\<open>encrypt\<close> takes
  the empty sequence for omitted keys: on a block of \<open>[0, 65535]\<close> it generates \<open>rounds + 1\<close>
  keys, stores them on the engine and returns the ciphertext of the block under them.
\<close>

theorem short_key_sequences:
  assumes "int (length keys) < p_rounds self + 1"
  shows "(keys \<noteq> [] \<longrightarrow>
            (\<exists>out e. encrypt self input (Some keys) draw = (self, out, Inl e))) \<and>
         (\<exists>e. decrypt self input (Some keys) = (self, [], Inl e)) \<and>
         (keys = [] \<and> iter_to_int input = Inr P \<and> block P \<longrightarrow>
            (\<exists>c. encrypt self input (Some keys) draw =
                   (self\<lparr>p_round_keys := Some (generate_keys self draw)\<rparr>, [], Inr c) \<and>
                 encrypt self input (Some (generate_keys self draw)) draw = (self, [], Inr c)))"
proof (intro conjI impI)
  show "\<exists>e. decrypt self input (Some keys) = (self, [], Inl e)"
    by (rule decrypt_short_keys_raises [OF assms])
next
  assume "keys \<noteq> []"
  then show "\<exists>out e. encrypt self input (Some keys) draw = (self, out, Inl e)"
    using assms by (rule encrypt_short_keys_raises)
next
  assume a: "keys = [] \<and> iter_to_int input = Inr P \<and> block P"
  with assms have "0 \<le> p_rounds self" by simp
  from encrypt_empty_keys_generates [OF this, of input P draw] a
  show "\<exists>c. encrypt self input (Some keys) draw =
           (self\<lparr>p_round_keys := Some (generate_keys self draw)\<rparr>, [], Inr c) \<and>
         encrypt self input (Some (generate_keys self draw)) draw = (self, [], Inr c)"
    by simp
qed

theorem short_key_sequences_witness:
  "(\<exists>out e. encrypt (init 5 False None) (PInt 0xffff)
        (Some [PInt 1, PBits [True], PInt 1, PInt 1, PInt 1]) (constant_draw 0) =
      (init 5 False None, out, Inl e)) \<and>
   (\<exists>e. decrypt (init 5 False None) (PInt 0xffff)
        (Some [PInt 1, PBits [True], PInt 1, PInt 1, PInt 1]) =
      (init 5 False None, [], Inl e)) \<and>
   (\<exists>c. encrypt (init 5 False None) (PInt 0xffff) (Some []) (constant_draw 0) =
      ((init 5 False None)
         \<lparr>p_round_keys := Some (generate_keys (init 5 False None) (constant_draw 0))\<rparr>,
       [], Inr c))"
proof -
  let ?keys = "[PInt 1, PBits [True], PInt 1, PInt 1, PInt 1]"
  have 1: "int (length ?keys) < p_rounds (init 5 False None) + 1"
    and 2: "int (length ([] :: pyval list)) < p_rounds (init 5 False None) + 1"
    and 3: "?keys \<noteq> []"
    and 4: "iter_to_int (PInt 0xffff) = Inr 0xffff" "block 0xffff"
    by (simp_all add: init_def block_def)
  from short_key_sequences [OF 1, of "PInt 0xffff" "constant_draw 0"] 3
    short_key_sequences [OF 2, of "PInt 0xffff" "constant_draw 0" "0xffff"] 4
  show ?thesis by blast
qed

text \<open>
  When the block is one of \<open>[0, 65535]\<close> and the keys are integers of \<open>[0, 65535]\<close>, the
  exception is the one of the subscript that finds no key.
\<close>

lemma short_integer_keys_raise_index_error:
  assumes R: "1 \<le> p_rounds self"
    and len: "int (length ks) < p_rounds self + 1"
    and ks: "\<forall>k\<in>set ks. block k"
    and B: "iter_to_int input = Inr B" "block B"
  shows "(ks \<noteq> [] \<longrightarrow>
            encrypt self input (Some (map PInt ks)) draw = (self, [], Inl IndexError)) \<and>
         decrypt self input (Some (map PInt ks)) = (self, [], Inl IndexError)"
proof (intro conjI impI)
  have i2: "py_index ks (p_rounds self) = Inl IndexError"
    using R len by (intro py_index_beyond) auto
  show "decrypt self input (Some (map PInt ks)) = (self, [], Inl IndexError)"
    by (simp add: decrypt_int_keys [OF B ks] i2)
  assume ne: "ks \<noteq> []"
  show "encrypt self input (Some (map PInt ks)) draw = (self, [], Inl IndexError)"
  proof (cases "py_index ks (p_rounds self - 1)")
    case (Inl e)
    then have "e = IndexError" by (auto simp: py_index_def split: if_splits)
    with Inl show ?thesis by (simp add: encrypt_int_keys [OF B ne ks])
  next
    case (Inr k)
    then show ?thesis by (simp add: encrypt_int_keys [OF B ne ks] i2)
  qed
qed

section \<open>Round keys of an unsupported type\<close>

text \<open>
  Claim C4, on the code.  A round key that is not an integer, is not iterable and whose
  class defines the reflected exclusive-or (here an object of
  \<^verbatim>\<open>class K: __rxor__ = lambda self, state: state ^ 3\<close>) is of a type the conversion
  refuses.  \<^verbatim>\<open>add_round_key\<close> prints its line and returns the state combined with the
  key: no exception reaches the caller, neither from \<^verbatim>\<open>add_round_key\<close> nor from
  \<^verbatim>\<open>encrypt\<close> on an engine of one round.  When the class defines no such operator (a
  \<^verbatim>\<open>float\<close>), the line is printed and the exception is the \<^verbatim>\<open>TypeError\<close> of the
  operator \<^verbatim>\<open>^\<close>, not one that \<^verbatim>\<open>add_round_key\<close> raises for the type.
\<close>

theorem unsupported_key_is_only_warned_about:
  "add_round_key 5 (PObj ''<class '__main__.K'>'' (Some (\<lambda>state. state XOR 3))) =
     ([''Type of the round_key (<class '__main__.K'>) is not allowed''], Inr 6) \<and>
   add_round_key 5 (PObj ''<class 'float'>'' None) =
     ([''Type of the round_key (<class 'float'>) is not allowed''], Inl TypeError) \<and>
   encrypt (init 1 False None) (PInt 5)
       (Some [PObj ''<class '__main__.K'>'' (Some (\<lambda>state. state XOR 3)), PInt 0]) draw =
     (init 1 False None, [''Type of the round_key (<class '__main__.K'>) is not allowed''],
      Inr (PInt 0x6662))"
proof (intro conjI)
  let ?key = "PObj ''<class '__main__.K'>'' (Some (\<lambda>state. state XOR 3))"
  let ?line = "''Type of the round_key (<class '__main__.K'>) is not allowed''"
  have a: "\<not> not_allowed 5" "\<not> not_allowed 6" "\<not> not_allowed 0x6662"
    by (simp_all add: not_allowed_def)
  show k: "add_round_key 5 ?key = ([?line], Inr 6)"
    by (simp add: add_round_key_def a bind_io_def lift_def warning_def)
  show "add_round_key 5 (PObj ''<class 'float'>'' None) =
      ([''Type of the round_key (<class 'float'>) is not allowed''], Inl TypeError)"
    by (simp add: add_round_key_def a bind_io_def lift_def warning_def)
  have s: "sbox_layer 6 False = Inr 0x6662"
    by (simp add: sbox_layer_eq a substitute_6)
  have l: "add_round_key 0x6662 (PInt 0) = ([], Inr 0x6662)"
    by (simp add: add_round_key_int a mix_def)
  have ne: "[?key, PInt 0] \<noteq> []" by simp
  show "encrypt (init 1 False None) (PInt 5) (Some [?key, PInt 0]) draw =
      (init 1 False None, [?line], Inr (PInt 0x6662))"
    unfolding encrypt_supplied [OF iter_to_int.simps(1) ne]
    by (simp add: init_def slice_to_def py_index_def k s l bind_io_def lift_def formatted_def)
qed

section \<open>The keys stored on the engine\<close>

text \<open>
  Claim C5 as stated fails.  Two calls of \<^verbatim>\<open>encrypt\<close> without keys follow each other
  on an engine of five rounds, the random source delivering 1 during the first call
  and 2 during the second: after the first call the engine holds six keys 1, after the
  second six keys 2.  The second call has generated a set of its own.
\<close>

theorem second_encrypt_generates_again:
  "round_keys (fst (encrypt (init 5 False None) (PInt 0) None (constant_draw 1))) =
     Some [PInt 1, PInt 1, PInt 1, PInt 1, PInt 1, PInt 1] \<and>
   round_keys (fst (encrypt (fst (encrypt (init 5 False None) (PInt 0) None (constant_draw 1)))
       (PInt 0) None (constant_draw 2))) =
     Some [PInt 2, PInt 2, PInt 2, PInt 2, PInt 2, PInt 2]"
proof -
  have f: "is_falsy None" by simp
  have e: "self\<lparr>p_round_keys := ks\<rparr> = init 5 False ks" if "self = init 5 False ks'"
    for self ks ks'
    using that by (simp add: init_def)
  have 1: "fst (encrypt (init 5 False None) (PInt 0) None (constant_draw 1)) =
      init 5 False (Some (map PInt [1, 1, 1, 1, 1, 1]))"
    unfolding fst_encrypt_omitted [OF f iter_to_int.simps(1)] generate_keys_constant_5
    by (simp add: init_def)
  have 2: "fst (encrypt (init 5 False (Some (map PInt [1, 1, 1, 1, 1, 1]))) (PInt 0) None
        (constant_draw 2)) =
      init 5 False (Some (map PInt [2, 2, 2, 2, 2, 2]))"
    unfolding fst_encrypt_omitted [OF f iter_to_int.simps(1)] generate_keys_constant_5
    by (simp add: init_def)
  show ?thesis
    unfolding 1 2 by (simp add: round_keys_def init_def)
qed

text \<open>
  Claim C5, amended.  When the caller omits the round keys (and also when the sequence
  passed to it is empty) and the plaintext converts to an integer, \<^verbatim>\<open>encrypt\<close>
  generates a key set at this call and stores it on the engine in the place of any set
  stored before.  \<^verbatim>\<open>decrypt\<close> called without keys (\<^verbatim>\<open>round_keys\<close> is
  \<^verbatim>\<open>None\<close>) generates nothing: it works with the set the engine holds at that moment,
  as if the caller had passed it, in particular with the set that the encryption before
  it has stored, and leaves the engine as it was.
\<close>

theorem omitted_keys_generated_at_encrypt_read_at_decrypt:
  assumes "is_falsy ka" and "iter_to_int plaintext = Inr P"
  shows "round_keys (fst (encrypt self plaintext ka draw)) = Some (generate_keys self draw) \<and>
         (\<forall>keys. round_keys self = Some keys \<longrightarrow>
            decrypt self ciphertext None = decrypt self ciphertext (Some keys)) \<and>
         fst (decrypt self ciphertext kd) = self \<and>
         decrypt (fst (encrypt self plaintext ka draw)) ciphertext None =
           decrypt (fst (encrypt self plaintext ka draw)) ciphertext
             (Some (generate_keys self draw))"
proof -
  have 1: "round_keys (fst (encrypt self plaintext ka draw)) = Some (generate_keys self draw)"
    by (simp add: fst_encrypt_omitted [OF assms] round_keys_def)
  have 2: "\<forall>keys. round_keys self = Some keys \<longrightarrow>
      decrypt self ciphertext None = decrypt self ciphertext (Some keys)"
    using decrypt_cached [of self _ ciphertext] by blast
  have 3: "fst (decrypt self ciphertext kd) = self" by (rule fst_decrypt)
  have 4: "decrypt (fst (encrypt self plaintext ka draw)) ciphertext None =
      decrypt (fst (encrypt self plaintext ka draw)) ciphertext (Some (generate_keys self draw))"
    by (rule decrypt_cached [OF 1])
  from 1 2 3 4 show ?thesis by blast
qed

theorem omitted_keys_generated_at_encrypt_read_at_decrypt_witness:
  "round_keys (init 5 False (Some [PInt 7, PInt 7, PInt 7, PInt 7, PInt 7, PInt 7])) =
     Some [PInt 7, PInt 7, PInt 7, PInt 7, PInt 7, PInt 7] \<and>
   round_keys (fst (encrypt (init 5 False (Some [PInt 7, PInt 7, PInt 7, PInt 7, PInt 7, PInt 7]))
       (PInt 0xffff) None (constant_draw 1))) =
     Some [PInt 1, PInt 1, PInt 1, PInt 1, PInt 1, PInt 1] \<and>
   decrypt (init 5 False (Some [PInt 7, PInt 7, PInt 7, PInt 7, PInt 7, PInt 7]))
       (PInt 0xffff) None =
     decrypt (init 5 False (Some [PInt 7, PInt 7, PInt 7, PInt 7, PInt 7, PInt 7]))
       (PInt 0xffff) (Some [PInt 7, PInt 7, PInt 7, PInt 7, PInt 7, PInt 7]) \<and>
   decrypt (init 5 False (Some [PInt 7, PInt 7, PInt 7, PInt 7, PInt 7, PInt 7]))
       (PInt 0xffff) None =
     (init 5 False (Some [PInt 7, PInt 7, PInt 7, PInt 7, PInt 7, PInt 7]), [],
      Inr (PInt 39898))"
proof -
  let ?keys = "[PInt 7, PInt 7, PInt 7, PInt 7, PInt 7, PInt 7]"
  let ?self = "init 5 False (Some ?keys)"
  have f: "is_falsy None" and i: "iter_to_int (PInt 0xffff) = Inr 0xffff" by simp_all
  have r: "round_keys ?self = Some ?keys"
    by (simp add: round_keys_def init_def)
  have g: "generate_keys ?self (constant_draw 1) = [PInt 1, PInt 1, PInt 1, PInt 1, PInt 1, PInt 1]"
    by (simp add: generate_keys_constant_5)
  note t = omitted_keys_generated_at_encrypt_read_at_decrypt
    [OF f i, of ?self "constant_draw 1" "PInt 0xffff"]
  from t have 1: "round_keys (fst (encrypt ?self (PInt 0xffff) None (constant_draw 1))) =
      Some [PInt 1, PInt 1, PInt 1, PInt 1, PInt 1, PInt 1]"
    by (simp add: g)
  from t r have 2: "decrypt ?self (PInt 0xffff) None = decrypt ?self (PInt 0xffff) (Some ?keys)"
    by blast
  have b: "block 0xffff" "\<forall>k\<in>set [7, 7, 7, 7, 7, 7]. block k"
    by (simp_all add: block_def)
  have "decrypt ?self (PInt 0xffff) (Some (map PInt [7, 7, 7, 7, 7, 7])) =
      (?self, [], Inr (PInt 39898))"
    unfolding decrypt_int_keys [OF i b]
    using stored_keys_0xffff
    by (simp add: init_def py_index_def slice_down_from_def formatted_def)
  then have 3: "decrypt ?self (PInt 0xffff) None = (?self, [], Inr (PInt 39898))"
    using 2 by simp
  from r 1 2 3 show ?thesis by blast
qed

text \<open>
  Claim C6, on the code.  The engine has five rounds and holds no keys; \<^verbatim>\<open>encrypt\<close> is
  called without keys on the block 65536, which the sanity check refuses.  The call
  raises \<^verbatim>\<open>ValueError\<close> in the first key mixing, after the generated keys have been
  stored: the engine that the failed call leaves holds six keys.
\<close>

theorem failed_encrypt_leaves_generated_keys:
  "round_keys (init 5 False None) = None \<and>
   encrypt (init 5 False None) (PInt 65536) None (constant_draw 0) =
     (init 5 False (Some [PInt 0, PInt 0, PInt 0, PInt 0, PInt 0, PInt 0]), [],
      Inl ValueError)"
proof
  show "round_keys (init 5 False None) = None"
    by (simp add: round_keys_def init_def)
  have f: "is_falsy None" by simp
  have a: "not_allowed 65536" by (simp add: not_allowed_def)
  have r: "round 65536 k False = ([], Inl ValueError)" for k
    by (simp add: round_def add_round_key_def a bind_io_Inl)
  show "encrypt (init 5 False None) (PInt 65536) None (constant_draw 0) =
      (init 5 False (Some [PInt 0, PInt 0, PInt 0, PInt 0, PInt 0, PInt 0]), [], Inl ValueError)"
    unfolding encrypt_omitted [OF f iter_to_int.simps(1)] generate_keys_constant_5
    by (simp add: init_def slice_to_def r bind_io_Inl)
qed

text \<open>
  Decryption never stores anything, and encryption with keys of its caller stores
  nothing either: the only assignment is the one of the generated keys.
\<close>

lemma supplied_keys_leave_engine:
  "fst (decrypt self ciphertext kd) = self \<and>
   (\<not> is_falsy ka \<longrightarrow> fst (encrypt self plaintext ka draw) = self)"
proof (intro conjI impI)
  show "fst (decrypt self ciphertext kd) = self" by (rule fst_decrypt)
  assume "\<not> is_falsy ka"
  then show "fst (encrypt self plaintext ka draw) = self"
    by (cases "iter_to_int plaintext"; cases ka) (simp_all add: encrypt_def)
qed

section \<open>Decryption without keys\<close>

text \<open>
  Claim C9.  When no keys are passed (\<^verbatim>\<open>round_keys\<close> is omitted or \<^verbatim>\<open>None\<close>) and
  the engine holds none, \<^verbatim>\<open>decrypt\<close> raises the exception of the missing keys, on
  every ciphertext that converts to an integer the sanity check accepts, so on every
  block of \<open>[0, 65535]\<close>; the engine is unchanged and nothing is printed.
\<close>

theorem decrypt_without_keys_raises:
  assumes "round_keys self = None" and "iter_to_int ciphertext = Inr C" and "\<not> not_allowed C"
  shows "decrypt self ciphertext None = (self, [], Inl DecryptWithoutKey)"
  by (simp add: decrypt_def assms)

theorem decrypt_without_keys_raises_witness:
  "decrypt (init 5 False None) (PInt 0xffff) None = (init 5 False None, [], Inl DecryptWithoutKey)"
proof -
  have "round_keys (init 5 False None) = None" and "iter_to_int (PInt 0xffff) = Inr 0xffff"
    and "\<not> not_allowed 0xffff"
    by (simp_all add: round_keys_def init_def not_allowed_def)
  then show ?thesis by (rule decrypt_without_keys_raises)
qed

text \<open>
  The sanity check of \<^verbatim>\<open>decrypt\<close> comes before the keys: a ciphertext that it refuses
  raises \<^verbatim>\<open>ValueError\<close>, with or without keys.
\<close>

lemma decrypt_refused_block:
  assumes "iter_to_int ciphertext = Inr C" and "not_allowed C"
  shows "decrypt self ciphertext ka = (self, [], Inl ValueError)"
  by (simp add: decrypt_def assms)

end
